theory Spec2Isabelle
  imports Complex_Main "HOL-Library.Multiset"
begin

section \<open>Characters and strings\<close>

text \<open>
  A Python \<open>str\<close> is a sequence of code points. The model takes a string to be a
  \<open>char list\<close> and reads every \<open>char\<close> as the code point of the same number, so it
  covers the code points below 256. The character classes below are the ones that
  Python's \<open>re\<close> module and \<open>str\<close> methods use on that range.
\<close>

definition cp :: "char \<Rightarrow> nat" where
  "cp c = of_char c"

definition ascii_upper :: "char \<Rightarrow> bool" where
  "ascii_upper c = (65 \<le> cp c \<and> cp c \<le> 90)"

definition ascii_lower :: "char \<Rightarrow> bool" where
  "ascii_lower c = (97 \<le> cp c \<and> cp c \<le> 122)"

definition ascii_digit :: "char \<Rightarrow> bool" where
  "ascii_digit c = (48 \<le> cp c \<and> cp c \<le> 57)"

text \<open>The class \<open>[A-Za-z_]\<close>.\<close>

definition ident_start :: "char \<Rightarrow> bool" where
  "ident_start c = (ascii_upper c \<or> ascii_lower c \<or> c = CHR ''_'')"

text \<open>The class \<open>[A-Za-z_0-9]\<close>.\<close>

definition ident_char :: "char \<Rightarrow> bool" where
  "ident_char c = (ident_start c \<or> ascii_digit c)"

text \<open>\<open>str.isspace\<close> and the class \<open>\s\<close> of a \<open>str\<close> pattern.\<close>

definition isspace :: "char \<Rightarrow> bool" where
  "isspace c = ((9 \<le> cp c \<and> cp c \<le> 13) \<or> (28 \<le> cp c \<and> cp c \<le> 32)
                 \<or> cp c = 133 \<or> cp c = 160)"

text \<open>The class \<open>\w\<close> of a \<open>str\<close> pattern: alphanumeric code points and the underscore.\<close>

definition re_word :: "char \<Rightarrow> bool" where
  "re_word c = (ident_char c \<or> cp c \<in> {170, 178, 179, 181, 185, 186, 188, 189, 190}
                 \<or> (192 \<le> cp c \<and> cp c \<noteq> 215 \<and> cp c \<noteq> 247))"

text \<open>The class \<open>\d\<close> of a \<open>str\<close> pattern: below 256 the decimal digits are \<open>0\<close> to \<open>9\<close>.\<close>

definition re_digit :: "char \<Rightarrow> bool" where
  "re_digit c = ascii_digit c"

text \<open>\<open>str.lower\<close>: the letters \<open>A\<close> to \<open>Z\<close> and the capital letters of Latin-1 move
  up by 32.\<close>

definition lower_char :: "char \<Rightarrow> char" where
  "lower_char c = (if ascii_upper c \<or> (192 \<le> cp c \<and> cp c \<le> 222 \<and> cp c \<noteq> 215)
                   then char_of (cp c + 32) else c)"

definition lower :: "string \<Rightarrow> string" where
  "lower s = map lower_char s"

section \<open>Tokens\<close>

definition C_KEYWORDS :: "string set" where
  "C_KEYWORDS = {''auto'', ''break'', ''case'', ''char'', ''const'', ''continue'', ''default'',
     ''do'', ''double'', ''else'', ''enum'', ''extern'', ''float'', ''for'', ''goto'', ''if'',
     ''inline'', ''int'', ''long'', ''register'', ''restrict'', ''return'', ''short'', ''signed'',
     ''sizeof'', ''static'', ''struct'', ''switch'', ''typedef'', ''union'', ''unsigned'', ''void'',
     ''volatile'', ''while'', ''_Bool'', ''_Complex'', ''_Imaginary''}"

text \<open>\<open>re.fullmatch(r"[A-Za-z_][A-Za-z_0-9]*", t)\<close>.\<close>

fun is_identifier :: "string \<Rightarrow> bool" where
  "is_identifier [] = False"
| "is_identifier (c # cs) = (ident_start c \<and> list_all ident_char cs)"

text \<open>The test both \<open>normalize_identifiers\<close> and \<open>extract_identifiers\<close> apply to a token.\<close>

definition nonkw_ident :: "string \<Rightarrow> bool" where
  "nonkw_ident t = (is_identifier t \<and> t \<notin> C_KEYWORDS)"

definition extract_identifiers :: "string list \<Rightarrow> string set" where
  "extract_identifiers tokens = {t \<in> set tokens. nonkw_ident t}"

section \<open>Control stream\<close>

definition map_ctrl :: "string \<rightharpoonup> string" where
  "map_ctrl = [''if'' \<mapsto> ''IF'', ''else'' \<mapsto> ''ELSE'', ''for'' \<mapsto> ''FOR'',
     ''while'' \<mapsto> ''WHILE'', ''do'' \<mapsto> ''DO'', ''switch'' \<mapsto> ''SWITCH'', ''case'' \<mapsto> ''CASE'',
     ''default'' \<mapsto> ''DEFAULT'', ''return'' \<mapsto> ''RETURN'', ''break'' \<mapsto> ''BREAK'',
     ''continue'' \<mapsto> ''CONTINUE'']"

text \<open>The body of the first loop of \<open>control_stream\<close>: what one token appends.\<close>

definition ctrl_step :: "string \<Rightarrow> string list \<Rightarrow> string list" where
  "ctrl_step t stream =
     (let tt = lower t in
      case map_ctrl tt of
        Some tag \<Rightarrow> stream @ [tag]
      | None \<Rightarrow> if t = ''{'' \<or> t = ''}'' then stream @ [''BRACE'' @ t]
                else if t = '';'' then stream @ [''SEMI'']
                else stream)"

text \<open>The body of the second loop (the list \<open>comp\<close> of the source): append unless equal to the last element kept.\<close>

definition comp_step :: "string \<Rightarrow> string list \<Rightarrow> string list" where
  "comp_step s compr = (if compr = [] \<or> last compr \<noteq> s then compr @ [s] else compr)"

definition control_stream :: "string list \<Rightarrow> string list" where
  "control_stream tokens =
     (let stream = fold ctrl_step tokens [];
          compr = fold comp_step stream []
      in compr)"

section \<open>Tokenizer\<close>

text \<open>
  \<open>tokenize\<close> returns the matches of \<open>TOKEN_RE\<close> from left to right. The pattern is an
  alternation of five groups, tried in order at every position: identifier, hexadecimal
  literal, number, two-character operator, one-character punctuation. Each \<open>match_\<close>
  function below is one group applied at the start of the remaining text; a position where
  no group matches is skipped.
\<close>

definition hex_digit :: "char \<Rightarrow> bool" where
  "hex_digit c = (ascii_digit c \<or> (65 \<le> cp c \<and> cp c \<le> 70) \<or> (97 \<le> cp c \<and> cp c \<le> 102))"

definition multi_ops :: "string list" where
  "multi_ops = [''=='', ''!='', ''<='', ''>='', ''->'', ''++'', ''--'', ''&&'', ''||'', ''<<'',
     ''>>'', ''::'']"

definition single_ops :: "string" where
  "single_ops = ''{}()[];,.:?~!%^&*+-/|<>=''"

definition match_ident :: "string \<Rightarrow> string option" where
  "match_ident s =
     (case s of
        [] \<Rightarrow> None
      | c # cs \<Rightarrow> if ident_start c then Some (c # takeWhile ident_char cs) else None)"

definition match_hex :: "string \<Rightarrow> string option" where
  "match_hex s =
     (case s of
        c0 # c1 # cs \<Rightarrow>
          if c0 = CHR ''0'' \<and> c1 = CHR ''x'' \<and> takeWhile hex_digit cs \<noteq> []
          then Some (c0 # c1 # takeWhile hex_digit cs) else None
      | _ \<Rightarrow> None)"

definition match_number :: "string \<Rightarrow> string option" where
  "match_number s =
     (let ds = takeWhile re_digit s; rest = dropWhile re_digit s in
      if ds \<noteq> [] \<and> take 1 rest = ''.''
        then Some (ds @ ''.'' @ takeWhile re_digit (drop 1 rest))
      else if take 1 s = ''.'' \<and> takeWhile re_digit (drop 1 s) \<noteq> []
        then Some (''.'' @ takeWhile re_digit (drop 1 s))
      else if ds \<noteq> [] then Some ds
      else None)"

definition match_multi :: "string \<Rightarrow> string option" where
  "match_multi s = find (\<lambda>op. take (length op) s = op) multi_ops"

definition match_single :: "string \<Rightarrow> string option" where
  "match_single s =
     (case s of
        [] \<Rightarrow> None
      | c # cs \<Rightarrow> if c \<in> set single_ops then Some [c] else None)"

definition match_token :: "string \<Rightarrow> string option" where
  "match_token s =
     (case match_ident s of Some t \<Rightarrow> Some t | None \<Rightarrow>
     (case match_hex s of Some t \<Rightarrow> Some t | None \<Rightarrow>
     (case match_number s of Some t \<Rightarrow> Some t | None \<Rightarrow>
     (case match_multi s of Some t \<Rightarrow> Some t | None \<Rightarrow>
      match_single s))))"

lemma match_multi_nonempty: "match_multi s = Some t \<Longrightarrow> t \<noteq> []"
  by (auto simp: match_multi_def multi_ops_def split: if_splits)

lemma match_token_nonempty: "match_token s = Some t \<Longrightarrow> t \<noteq> []"
  by (auto simp: match_token_def match_ident_def match_hex_def match_number_def
        match_single_def Let_def dest: match_multi_nonempty split: option.splits list.splits if_splits)

function tokenize :: "string \<Rightarrow> string list" where
  "tokenize s =
     (if s = [] then []
      else case match_token s of
             None \<Rightarrow> tokenize (drop 1 s)
           | Some t \<Rightarrow> t # tokenize (drop (length t) s))"
  by pat_completeness auto
termination
  by (relation "measure length") (auto dest: match_token_nonempty)

declare tokenize.simps [simp del]

section \<open>Loop signatures\<close>

text \<open>
  The three substitutions used on loop headers: \<open>re.sub(r"\s+", "", s)\<close>,
  \<open>re.sub(r"[A-Za-z_]\w*", "ID", s)\<close> and \<open>re.sub(r"\d+(\.\d+)?", "NUM", s)\<close>; the
  substring test \<open>x in s\<close>; \<open>str.split\<close> on one character and \<open>str.strip\<close>.
\<close>

definition remove_space :: "string \<Rightarrow> string" where
  "remove_space s = filter (\<lambda>c. \<not> isspace c) s"

function sub_ident :: "string \<Rightarrow> string" where
  "sub_ident [] = []"
| "sub_ident (c # cs) =
     (if ident_start c then ''ID'' @ sub_ident (dropWhile re_word cs) else c # sub_ident cs)"
  by pat_completeness auto
termination
  by (relation "measure length") (auto simp: length_dropWhile_le less_Suc_eq_le)

function sub_num :: "string \<Rightarrow> string" where
  "sub_num [] = []"
| "sub_num (c # cs) =
     (if re_digit c then
        (let rest = dropWhile re_digit cs in
         if take 1 rest = ''.'' \<and> takeWhile re_digit (drop 1 rest) \<noteq> []
         then ''NUM'' @ sub_num (dropWhile re_digit (drop 1 rest))
         else ''NUM'' @ sub_num rest)
      else c # sub_num cs)"
  by pat_completeness auto
termination
proof (relation "measure length")
  show "wf (measure length)" by simp
next
  fix c :: char and cs x
  show "x = dropWhile re_digit cs \<Longrightarrow> (dropWhile re_digit (drop 1 x), c # cs) \<in> measure length"
    using length_dropWhile_le [of re_digit "drop 1 (dropWhile re_digit cs)"]
      length_dropWhile_le [of re_digit cs] by simp
next
  fix c :: char and cs x
  show "x = dropWhile re_digit cs \<Longrightarrow> (x, c # cs) \<in> measure length"
    using length_dropWhile_le [of re_digit cs] by simp
next
  fix c :: char and cs
  show "(cs, c # cs) \<in> measure length" by simp
qed

fun py_in :: "string \<Rightarrow> string \<Rightarrow> bool" where
  "py_in sub [] = (sub = [])"
| "py_in sub (c # cs) = (take (length sub) (c # cs) = sub \<or> py_in sub cs)"

function split_char :: "char \<Rightarrow> string \<Rightarrow> string list" where
  "split_char sep s =
     (case dropWhile (\<lambda>c. c \<noteq> sep) s of
        [] \<Rightarrow> [s]
      | c # rest \<Rightarrow> takeWhile (\<lambda>c. c \<noteq> sep) s # split_char sep rest)"
  by pat_completeness auto
termination
proof (relation "measure (\<lambda>(sep, s). length s)")
  show "wf (measure (\<lambda>(sep, s). length s))" by simp
next
  fix sep :: char and s c rest
  assume "dropWhile (\<lambda>c. c \<noteq> sep) s = c # rest"
  then have "length rest < length (dropWhile (\<lambda>c. c \<noteq> sep) s)" by simp
  also have "\<dots> \<le> length s" by (rule length_dropWhile_le)
  finally show "((sep, rest), (sep, s)) \<in> measure (\<lambda>(sep, s). length s)" by simp
qed

definition strip :: "string \<Rightarrow> string" where
  "strip s = rev (dropWhile isspace (rev (dropWhile isspace s)))"

text \<open>
  The three local functions of \<open>normalize_for_header\<close>. In \<open>norm_init\<close> the test
  \<open>re.match(r".*=", s)\<close> asks for an \<open>=\<close> before the first newline; in \<open>norm_incr\<close> the two
  searches are for \<open>++\<close> or \<open>--\<close>, and for \<open>+=\<close>, \<open>-=\<close>, \<open>=ID+NUM\<close> or \<open>=ID-NUM\<close>.
  \<open>norm_cond\<close> has no test for the empty string.
\<close>

definition norm_init :: "string \<Rightarrow> string" where
  "norm_init s0 =
     (let s = remove_space s0 in
      if s = [] then ''NONE''
      else if CHR ''='' \<in> set (takeWhile (\<lambda>c. c \<noteq> CHR 0x0A) s) then ''ASSIGN_OR_DECL''
      else ''OTHER'')"

definition norm_cond :: "string \<Rightarrow> string" where
  "norm_cond s0 =
     (let s = remove_space s0; s = sub_ident s; s = sub_num s in
      if py_in ''ID<NUM'' s \<or> py_in ''ID<=NUM'' s then ''ID<NUM''
      else if py_in ''ID>NUM'' s \<or> py_in ''ID>=NUM'' s then ''ID>NUM''
      else if py_in ''ID==ID'' s \<or> py_in ''ID==NUM'' s then ''EQ''
      else ''COND'')"

definition norm_incr :: "string \<Rightarrow> string" where
  "norm_incr s0 =
     (let s = remove_space s0 in
      if s = [] then ''NONE''
      else if py_in ''++'' s \<or> py_in ''--'' s then ''INCDEC''
      else if py_in ''+='' s \<or> py_in ''-='' s \<or> py_in ''=ID+NUM'' s \<or> py_in ''=ID-NUM'' s
        then ''ARITH''
      else ''OTHER'')"

definition normalize_for_header :: "string \<Rightarrow> string" where
  "normalize_for_header header =
     (let parts = map strip (split_char CHR '';'' header);
          parts = parts @ replicate (3 - length parts) [];
          init = parts ! 0; cond = parts ! 1; incr = parts ! 2
      in ''FOR['' @ norm_init init @ '';'' @ norm_cond cond @ '';'' @ norm_incr incr @ '']'')"

definition normalize_while_cond :: "string \<Rightarrow> string" where
  "normalize_while_cond cond =
     (let s = remove_space cond; s = sub_ident s; s = sub_num s in
      if py_in ''ID<NUM'' s \<or> py_in ''ID>NUM'' s then ''CMP_NUM''
      else if py_in ''ID'' s \<and> \<not> py_in ''NUM'' s then ''COND_ID''
      else ''COND'')"

text \<open>
  \<open>find_matching_paren\<close>: the loop over \<open>enumerate(s[start_idx:], start_idx)\<close> with the
  counter \<open>depth\<close>; the result \<open>-1\<close> of the source is \<open>None\<close>.
\<close>

fun paren_scan :: "string \<Rightarrow> nat \<Rightarrow> int \<Rightarrow> nat option" where
  "paren_scan [] i depth = None"
| "paren_scan (ch # rest) i depth =
     (if ch = CHR ''('' then paren_scan rest (Suc i) (depth + 1)
      else if ch = CHR '')'' then
        (if depth - 1 = 0 then Some i else paren_scan rest (Suc i) (depth - 1))
      else paren_scan rest (Suc i) depth)"

definition find_matching_paren :: "string \<Rightarrow> nat \<Rightarrow> nat option" where
  "find_matching_paren s start_idx = paren_scan (drop start_idx s) start_idx 0"

text \<open>
  \<open>re.compile(r'\bfor\b').search(code_clean, i)\<close>: the first position from \<open>i\<close> on where the
  word stands between two word boundaries. A boundary \<open>\b\<close> is a position where exactly one
  of the characters before and after it is a word character; the character before the
  start position \<open>i\<close> counts. The result is the start of the match.
\<close>

definition at_boundary :: "string \<Rightarrow> nat \<Rightarrow> bool" where
  "at_boundary s p =
     (s \<noteq> [] \<and> ((0 < p \<and> re_word (s ! (p - 1))) \<noteq> (p < length s \<and> re_word (s ! p))))"

definition word_at :: "string \<Rightarrow> string \<Rightarrow> nat \<Rightarrow> bool" where
  "word_at w s p =
     (at_boundary s p \<and> take (length w) (drop p s) = w \<and> at_boundary s (p + length w))"

definition search_word :: "string \<Rightarrow> string \<Rightarrow> nat \<Rightarrow> nat option" where
  "search_word w s pos = find (word_at w s) [pos ..< Suc (length s)]"

text \<open>
  One iteration of the \<open>while i<n\<close> loop of \<open>extract_loop_signatures\<close> at position \<open>i\<close>:
  \<open>None\<close> when the loop breaks (no keyword found), otherwise the next value of \<open>i\<close>
  together with the signature added to \<open>sigs\<close>, if any. The two \<open>continue\<close> branches keep
  \<open>i\<close> at the end of the keyword and add nothing.
\<close>

definition scan_step :: "string \<Rightarrow> nat \<Rightarrow> (nat \<times> string option) option" where
  "scan_step code_clean i =
     (let n = length code_clean;
          mf = search_word ''for'' code_clean i;
          mw = search_word ''while'' code_clean i;
          m = (case mf of
                 Some f \<Rightarrow> (case mw of
                              None \<Rightarrow> Some (f + 3, ''FOR'')
                            | Some w \<Rightarrow> if f < w then Some (f + 3, ''FOR'') else Some (w + 5, ''WHILE''))
               | None \<Rightarrow> (case mw of
                             Some w \<Rightarrow> Some (w + 5, ''WHILE'')
                           | None \<Rightarrow> None))
      in case m of
           None \<Rightarrow> None
         | Some (m_end, kind) \<Rightarrow>
             (let j = m_end + length (takeWhile isspace (drop m_end code_clean)) in
              if j \<ge> n \<or> code_clean ! j \<noteq> CHR ''('' then Some (m_end, None)
              else case find_matching_paren code_clean j of
                     None \<Rightarrow> Some (m_end, None)
                   | Some k \<Rightarrow>
                       (let inside = take (k - (j + 1)) (drop (j + 1) code_clean) in
                        Some (k + 1,
                          Some (if kind = ''FOR'' then normalize_for_header inside
                                else ''WHILE['' @ normalize_while_cond inside @ '']'')))))"

text \<open>
  The loop itself. It is defined without a termination argument, so that a run that never
  returns has the value \<open>None\<close>; that it always returns is a theorem below.
\<close>

partial_function (option) scan :: "string \<Rightarrow> nat \<Rightarrow> string set \<Rightarrow> string set option" where
  "scan code_clean i sigs =
     (if i < length code_clean then
        (case scan_step code_clean i of
           None \<Rightarrow> Some sigs
         | Some (i', sg) \<Rightarrow>
             scan code_clean i' (case sg of None \<Rightarrow> sigs | Some x \<Rightarrow> insert x sigs))
      else Some sigs)"

definition extract_loop_signatures :: "string \<Rightarrow> string set option" where
  "extract_loop_signatures code_clean = scan code_clean 0 {}"

section \<open>Identifier normalization, shingles and bags\<close>

text \<open>The decimal text of a number, as the f-string \<open>f"ID{nxt}"\<close> formats it.\<close>

definition digit_char :: "nat \<Rightarrow> char" where
  "digit_char d = ''0123456789'' ! d"

function str_nat :: "nat \<Rightarrow> string" where
  "str_nat n = (if n < 10 then [digit_char n] else str_nat (n div 10) @ [digit_char (n mod 10)])"
  by pat_completeness auto
termination
  by (relation "measure id") auto

declare str_nat.simps [simp del]

text \<open>
  The body of the loop of \<open>normalize_identifiers\<close> on the state \<open>(id_map, out, nxt)\<close>: a
  non-keyword identifier gets the alias stored for it, a new one if it has none yet; any
  other token is copied.
\<close>

definition norm_step ::
  "string \<Rightarrow> (string \<rightharpoonup> string) \<times> string list \<times> nat
     \<Rightarrow> (string \<rightharpoonup> string) \<times> string list \<times> nat" where
  "norm_step t st =
     (case st of (id_map, out, nxt) \<Rightarrow>
        if nonkw_ident t then
          (case id_map t of
             None \<Rightarrow> (id_map(t \<mapsto> ''ID'' @ str_nat nxt), out @ [''ID'' @ str_nat nxt], nxt + 1)
           | Some a \<Rightarrow> (id_map, out @ [a], nxt))
        else (id_map, out @ [t], nxt))"

definition normalize_identifiers :: "string list \<Rightarrow> string list" where
  "normalize_identifiers tokens =
     (case fold norm_step tokens (Map.empty, [], 1) of (id_map, out, nxt) \<Rightarrow> out)"

text \<open>\<open>sep.join(xs)\<close>.\<close>

fun join :: "string \<Rightarrow> string list \<Rightarrow> string" where
  "join sep [] = []"
| "join sep [x] = x"
| "join sep (x # y # ys) = x @ sep @ join sep (y # ys)"

text \<open>The windows \<open>tokens[i:i+k]\<close> for \<open>i\<close> in \<open>range(len(tokens) - k + 1)\<close>, joined by a space.
  The width \<open>k\<close> is a natural number.\<close>

definition shingles :: "string list \<Rightarrow> nat \<Rightarrow> string set" where
  "shingles tokens k =
     (if length tokens < k then {}
      else set (map (\<lambda>i. join '' '' (take k (drop i tokens))) [0 ..< length tokens - k + 1]))"

definition jaccard :: "'a set \<Rightarrow> 'a set \<Rightarrow> real" where
  "jaccard a b =
     (if a = {} \<and> b = {} then 1
      else (let u = card (a \<union> b) in if u \<noteq> 0 then real (card (a \<inter> b)) / real u else 0))"

text \<open>\<open>Counter(tokens)\<close>: the bag of the tokens, each with its number of occurrences.\<close>

definition Counter :: "string list \<Rightarrow> string multiset" where
  "Counter tokens = mset tokens"

text \<open>A renaming \<open>f\<close> applied to the non-keyword identifiers of a token sequence; every
  other token stays as it is. This is the operation C6 speaks about, not a function of the
  source.\<close>

definition rename_identifiers :: "(string \<Rightarrow> string) \<Rightarrow> string list \<Rightarrow> string list" where
  "rename_identifiers f tokens = map (\<lambda>t. if nonkw_ident t then f t else t) tokens"

section \<open>Edit distance of control streams\<close>

text \<open>
  \<open>levenshtein\<close> keeps one row \<open>dp\<close> of the distance table and the value \<open>prev\<close> of the
  cell up and to the left. \<open>lev_cell\<close> is the body of the inner loop at column \<open>j\<close>,
  \<open>lev_row\<close> the body of the outer loop at row \<open>i\<close>.
\<close>

definition lev_cell :: "'a \<Rightarrow> 'a list \<Rightarrow> nat \<Rightarrow> nat \<times> nat list \<Rightarrow> nat \<times> nat list" where
  "lev_cell ai b j st =
     (case st of (prev, dp) \<Rightarrow>
        (let ins = dp ! (j - 1) + 1;
             dele = dp ! j + 1;
             sub = prev + (if ai = b ! (j - 1) then 0 else 1)
         in (dp ! j, dp[j := min ins (min dele sub)])))"

definition lev_row :: "'a list \<Rightarrow> 'a list \<Rightarrow> nat \<Rightarrow> nat list \<Rightarrow> nat list" where
  "lev_row a b i dp =
     snd (fold (lev_cell (a ! (i - 1)) b) [1 ..< length b + 1] (dp ! 0, dp[0 := i]))"

definition levenshtein :: "'a list \<Rightarrow> 'a list \<Rightarrow> nat" where
  "levenshtein a b =
     (let n = length a; m = length b in
      if n = 0 then m
      else if m = 0 then n
      else fold (lev_row a b) [1 ..< n + 1] [0 ..< m + 1] ! m)"

text \<open>The float result of \<open>sim_edit\<close> is taken as a real number.\<close>

definition sim_edit :: "'a list \<Rightarrow> 'a list \<Rightarrow> real" where
  "sim_edit a b =
     (if a = [] \<and> b = [] then 1
      else (let d = levenshtein a b
            in 1 - real d / real (max (length a) (max (length b) 1))))"

text \<open>
  The classical edit distance that C8 compares \<open>levenshtein\<close> with, stated twice
  independently of the source: by the usual recursion, and as the least cost of an edit
  script (\<open>edits xs ys n\<close>: \<open>xs\<close> becomes \<open>ys\<close> by \<open>n\<close> insertions, deletions and
  substitutions of single elements).
\<close>

fun edit_distance :: "'a list \<Rightarrow> 'a list \<Rightarrow> nat" where
  "edit_distance [] ys = length ys"
| "edit_distance xs [] = length xs"
| "edit_distance (x # xs) (y # ys) =
     min (edit_distance (x # xs) ys + 1)
       (min (edit_distance xs (y # ys) + 1)
          (edit_distance xs ys + (if x = y then 0 else 1)))"

inductive edits :: "'a list \<Rightarrow> 'a list \<Rightarrow> nat \<Rightarrow> bool" where
  stop: "edits [] [] 0"
| keep: "edits xs ys n \<Longrightarrow> edits (x # xs) (x # ys) n"
| replace: "edits xs ys n \<Longrightarrow> edits (x # xs) (y # ys) (Suc n)"
| delete: "edits xs ys n \<Longrightarrow> edits (x # xs) ys (Suc n)"
| insert: "edits xs ys n \<Longrightarrow> edits xs (y # ys) (Suc n)"



text \<open>The distance table the loops of \<open>levenshtein\<close> fill in: entry \<open>(i, j)\<close> is the distance
  of the first \<open>i\<close> elements of \<open>a\<close> and the first \<open>j\<close> elements of \<open>b\<close>; \<open>mix\<close> is the
  row \<open>dp\<close> while the inner loop has rewritten its columns up to \<open>k\<close>.\<close>

definition pd :: "'a list \<Rightarrow> 'a list \<Rightarrow> nat \<Rightarrow> nat \<Rightarrow> nat" where
  "pd a b i j = edit_distance (take i a) (take j b)"

definition mix :: "'a list \<Rightarrow> 'a list \<Rightarrow> nat \<Rightarrow> nat \<Rightarrow> nat list" where
  "mix a b i k = map (\<lambda>j. if j \<le> k then pd a b (Suc i) j else pd a b i j) [0 ..< length b + 1]"

section \<open>File names, features and the pairwise pass\<close>

text \<open>
  \<open>parse_qsigla\<close>: the pattern \<open>^[qQ](\d+)[ _-]([A-Za-z0-9_-]+)\.c$\<close> matched against the
  base name of the path. The digits and the tag are maximal runs (the character that has to
  follow each is outside its class), and \<open>$\<close> also matches before a final newline.
\<close>

definition basename :: "string \<Rightarrow> string" where
  "basename path = rev (takeWhile (\<lambda>c. c \<noteq> CHR ''/'') (rev path))"

definition tag_char :: "char \<Rightarrow> bool" where
  "tag_char c = (ident_char c \<or> c = CHR ''-'')"

definition int_of_digits :: "string \<Rightarrow> int" where
  "int_of_digits ds = fold (\<lambda>c n. 10 * n + (int (cp c) - 48)) ds 0"

definition parse_qsigla :: "string \<Rightarrow> (int \<times> string) option" where
  "parse_qsigla path =
     (case basename path of
        [] \<Rightarrow> None
      | q # rest \<Rightarrow>
          (let digits = takeWhile re_digit rest;
               rest2 = dropWhile re_digit rest;
               tag = takeWhile tag_char (drop 1 rest2);
               ending = dropWhile tag_char (drop 1 rest2)
           in if (q = CHR ''q'' \<or> q = CHR ''Q'') \<and> digits \<noteq> []
                 \<and> (take 1 rest2 = '' '' \<or> take 1 rest2 = ''_'' \<or> take 1 rest2 = ''-'')
                 \<and> tag \<noteq> [] \<and> (ending = ''.c'' \<or> ending = ''.c'' @ [CHR 0x0A])
              then Some (int_of_digits digits, tag)
              else None))"

text \<open>
  The feature dictionary of a file is one of three shapes: \<open>{"too_short": True}\<close>,
  \<open>{"error": text}\<close>, or the full bundle; \<open>feat\<close> holds the entries of the full bundle
  that \<open>compare_pair\<close> reads. Scores are floats, taken as real numbers.
\<close>

record feat =
  shingles_of :: "string set"
  idents_of :: "string set"
  calls_of :: "string set"
  control_of :: "string list"
  loopsigs_of :: "string set"

datatype features = TooShort | ExtractError string | Features feat

datatype py_error = KeyError

record weights =
  w_jaccard :: real
  w_control :: real
  w_idents :: real
  w_loops :: real
  w_calls :: real

record breakdown =
  br_jaccard :: real
  br_control :: real
  br_idents :: real
  br_loops :: real
  br_calls :: real

text \<open>\<open>compare_pair\<close> indexes both dictionaries; on one without the entries it raises
  \<open>KeyError\<close>.\<close>

definition compare_pair :: "features \<Rightarrow> features \<Rightarrow> weights \<Rightarrow> py_error + real \<times> breakdown" where
  "compare_pair fa fb w =
     (case (fa, fb) of
        (Features a, Features b) \<Rightarrow>
          (let j = jaccard (shingles_of a) (shingles_of b);
               ctrl = sim_edit (control_of a) (control_of b);
               idj = jaccard (idents_of a) (idents_of b);
               loops = jaccard (loopsigs_of a) (loopsigs_of b);
               calls = jaccard (calls_of a) (calls_of b);
               score = w_jaccard w * j + w_control w * ctrl + w_idents w * idj
                         + w_loops w * loops + w_calls w * calls
           in Inr (score, \<lparr>br_jaccard = j, br_control = ctrl, br_idents = idj,
                             br_loops = loops, br_calls = calls\<rparr>))
      | _ \<Rightarrow> Inl KeyError)"

text \<open>\<open>itertools.combinations(plist, 2)\<close>.\<close>

fun combinations2 :: "'a list \<Rightarrow> ('a \<times> 'a) list" where
  "combinations2 [] = []"
| "combinations2 (x # xs) = map (Pair x) xs @ combinations2 xs"

text \<open>The truth values of \<open>f.get("error")\<close> and \<open>f.get("too_short")\<close>.\<close>

definition get_error :: "features \<Rightarrow> bool" where
  "get_error f = (case f of ExtractError e \<Rightarrow> e \<noteq> [] | _ \<Rightarrow> False)"

definition get_too_short :: "features \<Rightarrow> bool" where
  "get_too_short f = (f = TooShort)"

text \<open>
  The pair loop of \<open>main\<close> in \<open>c_similarity_fine_final.py\<close> over the pairs of one question
  group, with the list \<open>pairs\<close> as accumulator.
\<close>

type_synonym pair_score = "string \<times> string \<times> real \<times> breakdown"

fun main_pairs ::
  "(string \<rightharpoonup> features) \<Rightarrow> weights \<Rightarrow> (string \<times> string) list \<Rightarrow> pair_score list
     \<Rightarrow> py_error + pair_score list" where
  "main_pairs feats w [] pairs = Inr pairs"
| "main_pairs feats w ((a, b) # rest) pairs =
     (case (feats a, feats b) of
        (Some fa, Some fb) \<Rightarrow>
          if get_error fa \<or> get_error fb \<or> get_too_short fa \<or> get_too_short fb
          then main_pairs feats w rest pairs
          else (case compare_pair fa fb w of
                  Inl e \<Rightarrow> Inl e
                | Inr (score, br) \<Rightarrow> main_pairs feats w rest (pairs @ [(a, b, score, br)]))
      | _ \<Rightarrow> Inl KeyError)"

definition main_group ::
  "(string \<rightharpoonup> features) \<Rightarrow> weights \<Rightarrow> string list \<Rightarrow> py_error + pair_score list" where
  "main_group feats w plist = main_pairs feats w (combinations2 plist) []"

text \<open>
  The pair loop of \<open>pairwise_fine\<close> in \<open>c_similarity_fine.py\<close>, the earlier variant of the
  same pass: \<open>meta\<close> maps a path to its \<open>(question, author tag)\<close>, and
  a pair with equal tags is skipped.
\<close>

definition WEIGHTS :: weights where
  "WEIGHTS = \<lparr>w_jaccard = 40 / 100, w_control = 20 / 100, w_idents = 15 / 100,
              w_loops = 15 / 100, w_calls = 10 / 100\<rparr>"

fun pairwise_fine_pairs ::
  "(string \<rightharpoonup> features) \<Rightarrow> (string \<rightharpoonup> int \<times> string) \<Rightarrow> (string \<times> string) list
     \<Rightarrow> pair_score list \<Rightarrow> py_error + pair_score list" where
  "pairwise_fine_pairs feats meta [] pairs = Inr pairs"
| "pairwise_fine_pairs feats meta ((a, b) # rest) pairs =
     (case (meta a, meta b) of
        (Some ma, Some mb) \<Rightarrow>
          if snd ma = snd mb then pairwise_fine_pairs feats meta rest pairs
          else (case (feats a, feats b) of
                  (Some fa, Some fb) \<Rightarrow>
                    (case compare_pair fa fb WEIGHTS of
                       Inl e \<Rightarrow> Inl e
                     | Inr (score, br) \<Rightarrow>
                         pairwise_fine_pairs feats meta rest (pairs @ [(a, b, score, br)]))
                | _ \<Rightarrow> Inl KeyError)
      | _ \<Rightarrow> Inl KeyError)"

definition pairwise_fine_group ::
  "(string \<rightharpoonup> features) \<Rightarrow> (string \<rightharpoonup> int \<times> string) \<Rightarrow> string list
     \<Rightarrow> py_error + pair_score list" where
  "pairwise_fine_group feats meta plist = pairwise_fine_pairs feats meta (combinations2 plist) []"



section \<open>Cosine and baseline statistics\<close>

text \<open>
  A \<open>Counter\<close> built from a token list is a bag; a missing key counts 0. \<open>cosine\<close> is the
  function of \<open>c_similarity_fine_final.py\<close>, \<open>cosine_final\<close> the one of
  \<open>c_similarity_final.py\<close>, which starts with a test for two empty bags.
\<close>

definition cosine :: "string multiset \<Rightarrow> string multiset \<Rightarrow> real" where
  "cosine ca cb =
     (let keys = set_mset ca \<union> set_mset cb;
          dot = (\<Sum>k \<in> keys. real (count ca k) * real (count cb k));
          na = sqrt (\<Sum>k \<in> set_mset ca. real (count ca k) * real (count ca k));
          nb = sqrt (\<Sum>k \<in> set_mset cb. real (count cb k) * real (count cb k))
      in if na \<noteq> 0 \<and> nb \<noteq> 0 then dot / (na * nb) else 0)"

definition cosine_final :: "string multiset \<Rightarrow> string multiset \<Rightarrow> real" where
  "cosine_final ca cb =
     (if ca = {#} \<and> cb = {#} then 1
      else (let keys = set_mset ca \<union> set_mset cb;
                dot = (\<Sum>k \<in> keys. real (count ca k) * real (count cb k));
                na = sqrt (\<Sum>k \<in> set_mset ca. real (count ca k) * real (count ca k));
                nb = sqrt (\<Sum>k \<in> set_mset cb. real (count cb k) * real (count cb k))
            in if na \<noteq> 0 \<and> nb \<noteq> 0 then dot / (na * nb) else 0))"

text \<open>\<open>statistics.fmean\<close> and \<open>statistics.pstdev\<close>, on real numbers. Both are called on
  at least two values only.\<close>

definition fmean :: "real list \<Rightarrow> real" where
  "fmean values = sum_list values / real (length values)"

definition pstdev :: "real list \<Rightarrow> real" where
  "pstdev values =
     sqrt (sum_list (map (\<lambda>x. (x - fmean values) ^ 2) values) / real (length values))"

text \<open>
  \<open>baseline_stats\<close> ends with \<open>return mean, sd if sd>0 else (mean, 0.0)\<close>, which Python reads
  as \<open>mean, (sd if sd>0 else (mean, 0.0))\<close>: the second component is a number or a pair.
  The result \<open>(None, None)\<close> is \<open>None\<close> here.
\<close>

datatype py_sd = Number real | Tuple real real

definition baseline_stats :: "real list \<Rightarrow> (real \<times> py_sd) option" where
  "baseline_stats values =
     (if length values < 2 then None
      else (let mean = fmean values; sd = pstdev values
            in Some (mean, if sd > 0 then Number sd else Tuple mean 0)))"


section \<open>Properties of the control stream\<close>

lemma comp_step_distinct_adj:
  "distinct_adj compr \<Longrightarrow> distinct_adj (comp_step s compr)"
  by (cases "compr = []") (auto simp: comp_step_def distinct_adj_append_iff)

lemma fold_comp_step_distinct_adj:
  "distinct_adj compr \<Longrightarrow> distinct_adj (fold comp_step stream compr)"
  by (induction stream arbitrary: compr) (simp_all add: comp_step_distinct_adj)

lemma set_comp_step:
  "set (comp_step s compr) = insert s (set compr)"
  by (cases compr rule: rev_cases) (auto simp: comp_step_def)

lemma set_fold_comp_step:
  "set (fold comp_step stream compr) = set stream \<union> set compr"
  by (induction stream arbitrary: compr) (auto simp: set_comp_step)

lemma ctrl_step_mono:
  "set stream \<subseteq> set (ctrl_step t stream)"
  by (auto simp: ctrl_step_def Let_def split: option.splits)

lemma fold_ctrl_step_mono:
  "set stream \<subseteq> set (fold ctrl_step tokens stream)"
proof (induction tokens arbitrary: stream)
  case Nil
  show ?case by simp
next
  case (Cons t tokens)
  have "set stream \<subseteq> set (ctrl_step t stream)"
    by (rule ctrl_step_mono)
  also have "\<dots> \<subseteq> set (fold ctrl_step tokens (ctrl_step t stream))"
    by (rule Cons.IH)
  finally show ?case by simp
qed

lemma fold_ctrl_step_tag:
  "t \<in> set tokens \<Longrightarrow> map_ctrl (lower t) = Some tag
     \<Longrightarrow> tag \<in> set (fold ctrl_step tokens stream)"
proof (induction tokens arbitrary: stream)
  case Nil
  then show ?case by simp
next
  case (Cons u tokens)
  show ?case
  proof (cases "u = t")
    case True
    have "tag \<in> set (ctrl_step t stream)"
      using Cons.prems(2) by (simp add: ctrl_step_def)
    then show ?thesis
      using fold_ctrl_step_mono [of "ctrl_step t stream" tokens] True by auto
  next
    case False
    then have "t \<in> set tokens"
      using Cons.prems(1) by simp
    then show ?thesis
      using Cons.IH Cons.prems(2) by simp
  qed
qed

text \<open>
  C7. For every token sequence, the compressed control stream that \<open>control_stream\<close>
  returns has no two equal adjacent elements.
\<close>

theorem control_stream_no_adjacent_duplicates:
  "distinct_adj (control_stream tokens)"
  unfolding control_stream_def Let_def
  by (rule fold_comp_step_distinct_adj) simp

text \<open>
  C9. Keyword matching in the control stream ignores letter case: a non-keyword identifier
  token whose lower-case form is a control keyword (such as \<open>IF\<close>, \<open>While\<close>, \<open>RETURN\<close>)
  puts that keyword's tag into the control stream, and the same token is a member of the
  identifier set, whose keyword test is case-sensitive.
\<close>

theorem control_stream_case_insensitive:
  assumes "t \<in> set tokens" and "nonkw_ident t" and "map_ctrl (lower t) = Some tag"
  shows "tag \<in> set (control_stream tokens) \<and> t \<in> extract_identifiers tokens"
proof
  have "tag \<in> set (fold ctrl_step tokens [])"
    using assms(1,3) by (rule fold_ctrl_step_tag)
  then show "tag \<in> set (control_stream tokens)"
    by (simp add: control_stream_def set_fold_comp_step)
  show "t \<in> extract_identifiers tokens"
    using assms(1,2) by (simp add: extract_identifiers_def)
qed

theorem control_stream_case_insensitive_witness:
  "''IF'' \<in> set (control_stream [''IF'', ''While'', ''RETURN''])
     \<and> ''IF'' \<in> extract_identifiers [''IF'', ''While'', ''RETURN'']
     \<and> ''WHILE'' \<in> set (control_stream [''IF'', ''While'', ''RETURN''])
     \<and> ''While'' \<in> extract_identifiers [''IF'', ''While'', ''RETURN'']
     \<and> ''RETURN'' \<in> set (control_stream [''IF'', ''While'', ''RETURN''])
     \<and> ''RETURN'' \<in> extract_identifiers [''IF'', ''While'', ''RETURN'']"
proof -
  let ?ts = "[''IF'', ''While'', ''RETURN'']"
  have low: "lower ''IF'' = ''if''" "lower ''While'' = ''while''" "lower ''RETURN'' = ''return''"
    by code_simp+
  have nk: "nonkw_ident ''IF''" "nonkw_ident ''While''" "nonkw_ident ''RETURN''"
    by code_simp+
  have m1: "map_ctrl (lower ''IF'') = Some ''IF''"
    and m2: "map_ctrl (lower ''While'') = Some ''WHILE''"
    and m3: "map_ctrl (lower ''RETURN'') = Some ''RETURN''"
    by (simp_all add: low map_ctrl_def)
  have "''IF'' \<in> set ?ts" and "''While'' \<in> set ?ts" and "''RETURN'' \<in> set ?ts"
    by simp_all
  then show ?thesis
    using control_stream_case_insensitive [of "''IF''" ?ts "''IF''", OF _ nk(1) m1]
      control_stream_case_insensitive [of "''While''" ?ts "''WHILE''", OF _ nk(2) m2]
      control_stream_case_insensitive [of "''RETURN''" ?ts "''RETURN''", OF _ nk(3) m3]
    by blast
qed

section \<open>Properties of the loop-signature scan\<close>

lemma find_in_set: "find P xs = Some x \<Longrightarrow> x \<in> set xs"
  by (induction xs) (auto split: if_splits)

lemma search_word_ge: "search_word w s pos = Some p \<Longrightarrow> pos \<le> p"
  unfolding search_word_def by (drule find_in_set) auto

lemma paren_scan_ge: "paren_scan xs i depth = Some k \<Longrightarrow> i \<le> k"
proof (induction xs arbitrary: i depth)
  case Nil
  then show ?case by simp
next
  case (Cons ch rest)
  then show ?case
    by (fastforce split: if_splits dest: Suc_leD)
qed

lemma find_matching_paren_ge: "find_matching_paren s j = Some k \<Longrightarrow> j \<le> k"
  unfolding find_matching_paren_def by (rule paren_scan_ge)

lemma scan_step_advances:
  assumes "scan_step code_clean i = Some (i', sg)"
  shows "i + 3 \<le> i'"
  using assms
  by (auto simp: scan_step_def Let_def
      split: option.splits if_splits prod.splits
      dest!: search_word_ge find_matching_paren_ge)

lemma normalize_for_header_form:
  "\<exists>y. normalize_for_header h = ''FOR['' @ y @ '']''"
proof -
  obtain a b c where "normalize_for_header h = ''FOR['' @ a @ '';'' @ b @ '';'' @ c @ '']''"
    unfolding normalize_for_header_def Let_def by blast
  then have "normalize_for_header h = ''FOR['' @ (a @ '';'' @ b @ '';'' @ c) @ '']''"
    by simp
  then show ?thesis by blast
qed

lemma scan_step_form:
  assumes "scan_step code_clean i = Some (i', Some x)"
  shows "\<exists>y. x = ''FOR['' @ y @ '']'' \<or> x = ''WHILE['' @ y @ '']''"
proof -
  have "(\<exists>h. x = normalize_for_header h) \<or> (\<exists>c. x = ''WHILE['' @ normalize_while_cond c @ '']'')"
    using assms
    by (auto simp: scan_step_def Let_def split: option.splits if_splits prod.splits)
  then show ?thesis
    using normalize_for_header_form by metis
qed

lemma scan_returns:
  assumes "\<forall>s \<in> sigs. \<exists>y. s = ''FOR['' @ y @ '']'' \<or> s = ''WHILE['' @ y @ '']''"
  shows "\<exists>S. scan code_clean i sigs = Some S
           \<and> (\<forall>s \<in> S. \<exists>y. s = ''FOR['' @ y @ '']'' \<or> s = ''WHILE['' @ y @ '']'')"
  using assms
proof (induction "length code_clean - i" arbitrary: i sigs rule: less_induct)
  case less
  show ?case
  proof (cases "i < length code_clean")
    case False
    then have "scan code_clean i sigs = Some sigs"
      by (subst scan.simps) simp
    then show ?thesis using less.prems by blast
  next
    case True
    show ?thesis
    proof (cases "scan_step code_clean i")
      case None
      then have "scan code_clean i sigs = Some sigs"
        by (subst scan.simps) simp
      then show ?thesis using less.prems by blast
    next
      case (Some r)
      obtain i' sg where r: "r = (i', sg)" by (cases r)
      let ?sigs' = "case sg of None \<Rightarrow> sigs | Some x \<Rightarrow> insert x sigs"
      have adv: "i + 3 \<le> i'"
        using Some r by (auto dest: scan_step_advances)
      have form: "\<forall>s \<in> ?sigs'. \<exists>y. s = ''FOR['' @ y @ '']'' \<or> s = ''WHILE['' @ y @ '']''"
      proof (cases sg)
        case None
        then show ?thesis using less.prems by simp
      next
        case (Some x)
        then have "\<exists>y. x = ''FOR['' @ y @ '']'' \<or> x = ''WHILE['' @ y @ '']''"
          using \<open>scan_step code_clean i = Some r\<close> r scan_step_form by blast
        then show ?thesis using less.prems Some by simp
      qed
      have "length code_clean - i' < length code_clean - i"
        using adv True by arith
      then have "\<exists>S. scan code_clean i' ?sigs' = Some S
           \<and> (\<forall>s \<in> S. \<exists>y. s = ''FOR['' @ y @ '']'' \<or> s = ''WHILE['' @ y @ '']'')"
        using form by (rule less.hyps)
      moreover have "scan code_clean i sigs = scan code_clean i' ?sigs'"
        using True Some r by (subst scan.simps) simp
      ultimately show ?thesis by simp
    qed
  qed
qed

text \<open>
  C10. The loop-signature scan terminates on every input string: an iteration that does
  not stop moves the position past the matched \<open>for\<close> or \<open>while\<close> keyword (also when no
  \<open>(\<close> follows or the parenthesis is never closed), and the scan returns a set whose
  elements all have the form \<open>FOR[...]\<close> or \<open>WHILE[...]\<close>.
\<close>

theorem extract_loop_signatures_terminates:
  "(\<exists>S. extract_loop_signatures code_clean = Some S
       \<and> (\<forall>s \<in> S. \<exists>y. s = ''FOR['' @ y @ '']'' \<or> s = ''WHILE['' @ y @ '']''))
   \<and> (\<forall>i i' sg. scan_step code_clean i = Some (i', sg) \<longrightarrow> i + 3 \<le> i')"
proof
  show "\<exists>S. extract_loop_signatures code_clean = Some S
       \<and> (\<forall>s \<in> S. \<exists>y. s = ''FOR['' @ y @ '']'' \<or> s = ''WHILE['' @ y @ '']'')"
    unfolding extract_loop_signatures_def by (rule scan_returns) simp
  show "\<forall>i i' sg. scan_step code_clean i = Some (i', sg) \<longrightarrow> i + 3 \<le> i'"
    using scan_step_advances by blast
qed

lemma scan_step_unclosed:
  "scan_step ''while (x for'' 0 = Some (5, None)"
  "scan_step ''while (x for'' 5 = Some (12, None)"
  by code_simp+

lemma scan_step_for_n:
  "scan_step ''for (int i = 0; i < n; i++)'' 0
     = Some (27, Some ''FOR[ASSIGN_OR_DECL;COND;INCDEC]'')"
  by code_simp

lemma scan_step_for_10:
  "scan_step ''for (int i = 0; i < 10; i++)'' 0
     = Some (28, Some ''FOR[ASSIGN_OR_DECL;ID<NUM;INCDEC]'')"
  by code_simp

lemma extract_loop_signatures_for_n:
  "extract_loop_signatures ''for (int i = 0; i < n; i++)''
     = Some {''FOR[ASSIGN_OR_DECL;COND;INCDEC]''}"
proof -
  have "scan ''for (int i = 0; i < n; i++)'' 0 {}
      = scan ''for (int i = 0; i < n; i++)'' 27 {''FOR[ASSIGN_OR_DECL;COND;INCDEC]''}"
    by (subst scan.simps) (simp add: scan_step_for_n)
  also have "\<dots> = Some {''FOR[ASSIGN_OR_DECL;COND;INCDEC]''}"
    by (subst scan.simps) simp
  finally show ?thesis
    by (simp add: extract_loop_signatures_def)
qed

lemma extract_loop_signatures_for_10:
  "extract_loop_signatures ''for (int i = 0; i < 10; i++)''
     = Some {''FOR[ASSIGN_OR_DECL;ID<NUM;INCDEC]''}"
proof -
  have "scan ''for (int i = 0; i < 10; i++)'' 0 {}
      = scan ''for (int i = 0; i < 10; i++)'' 28 {''FOR[ASSIGN_OR_DECL;ID<NUM;INCDEC]''}"
    by (subst scan.simps) (simp add: scan_step_for_10)
  also have "\<dots> = Some {''FOR[ASSIGN_OR_DECL;ID<NUM;INCDEC]''}"
    by (subst scan.simps) simp
  finally show ?thesis
    by (simp add: extract_loop_signatures_def)
qed

lemma extract_loop_signatures_unclosed:
  "extract_loop_signatures ''while (x for'' = Some {}"
proof -
  have "scan ''while (x for'' 0 {} = scan ''while (x for'' 5 {}"
    by (subst scan.simps) (simp add: scan_step_unclosed)
  also have "\<dots> = scan ''while (x for'' 12 {}"
    by (subst scan.simps) (simp add: scan_step_unclosed)
  also have "\<dots> = Some {}"
    by (subst scan.simps) simp
  finally show ?thesis
    by (simp add: extract_loop_signatures_def)
qed

theorem extract_loop_signatures_terminates_witness:
  "extract_loop_signatures ''for (int i = 0; i < n; i++)''
       = Some {''FOR[ASSIGN_OR_DECL;COND;INCDEC]''}
   \<and> (\<exists>y. ''FOR[ASSIGN_OR_DECL;COND;INCDEC]'' = ''FOR['' @ y @ '']''
          \<or> ''FOR[ASSIGN_OR_DECL;COND;INCDEC]'' = ''WHILE['' @ y @ '']'')
   \<and> scan_step ''for (int i = 0; i < n; i++)'' 0
       = Some (27, Some ''FOR[ASSIGN_OR_DECL;COND;INCDEC]'')
   \<and> (0::nat) + 3 \<le> 27
   \<and> extract_loop_signatures ''while (x for'' = Some {}
   \<and> scan_step ''while (x for'' 0 = Some (5, None)
   \<and> (0::nat) + 3 \<le> 5"
  using extract_loop_signatures_terminates [of "''for (int i = 0; i < n; i++)''"]
    extract_loop_signatures_terminates [of "''while (x for''"]
    extract_loop_signatures_for_n extract_loop_signatures_unclosed
    scan_step_for_n scan_step_unclosed(1)
  by auto

text \<open>
  C1 (claim as stated, refuted). For the text \<open>for (int i = 0; i < n; i++)\<close> the extractor
  does not produce the signature \<open>FOR[ASSIGN_OR_DECL;ID<NUM;INCDEC]\<close>.
\<close>

theorem loop_signature_example_counterexample:
  "extract_loop_signatures ''for (int i = 0; i < n; i++)''
     \<noteq> Some {''FOR[ASSIGN_OR_DECL;ID<NUM;INCDEC]''}"
  by (simp add: extract_loop_signatures_for_n)

text \<open>
  C1 (amended). For the text \<open>for (int i = 0; i < n; i++)\<close> the extractor produces exactly
  the signature \<open>FOR[ASSIGN_OR_DECL;COND;INCDEC]\<close>: the condition \<open>i < n\<close> becomes
  \<open>ID<ID\<close>, which none of the patterns of \<open>norm_cond\<close> contains. The signature
  \<open>FOR[ASSIGN_OR_DECL;ID<NUM;INCDEC]\<close> is the one of a loop whose bound is a numeric
  literal, as in \<open>for (int i = 0; i < 10; i++)\<close>.
\<close>

theorem loop_signature_example:
  "extract_loop_signatures ''for (int i = 0; i < n; i++)''
       = Some {''FOR[ASSIGN_OR_DECL;COND;INCDEC]''}
   \<and> sub_num (sub_ident (remove_space ''i < n'')) = ''ID<ID''
   \<and> extract_loop_signatures ''for (int i = 0; i < 10; i++)''
       = Some {''FOR[ASSIGN_OR_DECL;ID<NUM;INCDEC]''}"
proof -
  have "sub_num (sub_ident (remove_space ''i < n'')) = ''ID<ID''"
    by code_simp
  then show ?thesis
    using extract_loop_signatures_for_n extract_loop_signatures_for_10 by simp
qed

section \<open>The control stream of the example\<close>

lemma tokenize_example:
  "tokenize ''if(a){for(i=0;i<n;i++){}}''
     = [''if'', ''('', ''a'', '')'', ''{'', ''for'', ''('', ''i'', ''='', ''0'', '';'', ''i'',
        ''<'', ''n'', '';'', ''i'', ''++'', '')'', ''{'', ''}'', ''}'']"
  by code_simp

lemma control_stream_example_value:
  "control_stream (tokenize ''if(a){for(i=0;i<n;i++){}}'')
     = [''IF'', ''BRACE{'', ''FOR'', ''SEMI'', ''BRACE{'', ''BRACE}'']"
  by code_simp

text \<open>
  C2 (claim as stated, refuted). For the text \<open>if(a){for(i=0;i<n;i++){}}\<close> the control
  stream is not the seven-element sequence that ends in two \<open>BRACE}\<close>.
\<close>

theorem control_stream_example_counterexample:
  "control_stream (tokenize ''if(a){for(i=0;i<n;i++){}}'')
     \<noteq> [''IF'', ''BRACE{'', ''FOR'', ''SEMI'', ''BRACE{'', ''BRACE}'', ''BRACE}'']"
  unfolding control_stream_example_value by simp

text \<open>
  C2 (amended). For the text \<open>if(a){for(i=0;i<n;i++){}}\<close> the control stream is
  \<open>[IF, BRACE{, FOR, SEMI, BRACE{, BRACE}]\<close>: the two closing braces at the end are equal
  adjacent elements, and the compression keeps one of them.
\<close>

theorem control_stream_example:
  "control_stream (tokenize ''if(a){for(i=0;i<n;i++){}}'')
     = [''IF'', ''BRACE{'', ''FOR'', ''SEMI'', ''BRACE{'', ''BRACE}'']"
  by (rule control_stream_example_value)

section \<open>Renaming identifiers\<close>

lemma fold_norm_step_rename:
  assumes "inj_on f I" and "\<forall>t \<in> I. nonkw_ident (f t)"
    and "{t \<in> set ts. nonkw_ident t} \<subseteq> I"
    and "\<forall>u \<in> I. m1 (f u) = m2 u"
  shows "snd (fold norm_step (rename_identifiers f ts) (m1, out, n))
           = snd (fold norm_step ts (m2, out, n))"
  using assms(3,4)
proof (induction ts arbitrary: m1 m2 out n)
  case Nil
  then show ?case by (simp add: rename_identifiers_def)
next
  case (Cons t ts)
  have sub: "{t \<in> set ts. nonkw_ident t} \<subseteq> I"
    using Cons.prems(1) by auto
  show ?case
  proof (cases "nonkw_ident t")
    case False
    then have "fold norm_step (rename_identifiers f (t # ts)) (m1, out, n)
        = fold norm_step (rename_identifiers f ts) (m1, out @ [t], n)"
      by (simp add: rename_identifiers_def norm_step_def)
    moreover have "fold norm_step (t # ts) (m2, out, n) = fold norm_step ts (m2, out @ [t], n)"
      using False by (simp add: norm_step_def)
    ultimately show ?thesis
      using Cons.IH [OF sub Cons.prems(2)] by simp
  next
    case True
    then have tI: "t \<in> I" using Cons.prems(1) by auto
    then have ft: "nonkw_ident (f t)" using assms(2) by blast
    have eq: "m1 (f t) = m2 t" using Cons.prems(2) tI by blast
    show ?thesis
    proof (cases "m2 t")
      case (Some a)
      have "fold norm_step (rename_identifiers f (t # ts)) (m1, out, n)
          = fold norm_step (rename_identifiers f ts) (m1, out @ [a], n)"
        using True ft eq Some by (simp add: rename_identifiers_def norm_step_def)
      moreover have "fold norm_step (t # ts) (m2, out, n) = fold norm_step ts (m2, out @ [a], n)"
        using True Some by (simp add: norm_step_def)
      ultimately show ?thesis
        using Cons.IH [OF sub Cons.prems(2)] by simp
    next
      case None
      let ?a = "''ID'' @ str_nat n"
      have "fold norm_step (rename_identifiers f (t # ts)) (m1, out, n)
          = fold norm_step (rename_identifiers f ts) (m1(f t \<mapsto> ?a), out @ [?a], n + 1)"
        using True ft eq None by (simp add: rename_identifiers_def norm_step_def)
      moreover have "fold norm_step (t # ts) (m2, out, n)
          = fold norm_step ts (m2(t \<mapsto> ?a), out @ [?a], n + 1)"
        using True None by (simp add: norm_step_def)
      moreover have "\<forall>u \<in> I. (m1(f t \<mapsto> ?a)) (f u) = (m2(t \<mapsto> ?a)) u"
        using Cons.prems(2) tI assms(1) by (auto simp: inj_on_def)
      ultimately show ?thesis
        using Cons.IH [OF sub] by simp
    qed
  qed
qed

lemma normalize_identifiers_rename:
  assumes "inj_on f (extract_identifiers tokens)"
    and "\<forall>t \<in> extract_identifiers tokens. nonkw_ident (f t)"
  shows "normalize_identifiers (rename_identifiers f tokens) = normalize_identifiers tokens"
proof -
  have "snd (fold norm_step (rename_identifiers f tokens) (Map.empty, [], 1))
           = snd (fold norm_step tokens (Map.empty, [], 1))"
    using assms by (intro fold_norm_step_rename [where I = "extract_identifiers tokens"])
      (auto simp: extract_identifiers_def)
  then show ?thesis
    by (simp add: normalize_identifiers_def case_prod_beta)
qed

lemma jaccard_same: "finite a \<Longrightarrow> jaccard a a = 1"
  by (auto simp: jaccard_def Let_def card_gt_0_iff)

lemma finite_shingles: "finite (shingles tokens k)"
  by (simp add: shingles_def)


text \<open>
  C6. Renaming the non-keyword identifiers of a token sequence by a map that is injective
  on them and sends them to non-keyword identifiers (fresh distinct names are a special
  case) changes neither the normalized token sequence, nor its set of \<open>k\<close>-shingles, nor
  its token-frequency bag; so the shingle Jaccard of a file and its renamed copy is 1.
\<close>

theorem rename_invariance:
  assumes "inj_on f (extract_identifiers tokens)"
    and "\<forall>t \<in> extract_identifiers tokens. nonkw_ident (f t)"
  shows "normalize_identifiers (rename_identifiers f tokens) = normalize_identifiers tokens
    \<and> shingles (normalize_identifiers (rename_identifiers f tokens)) k
        = shingles (normalize_identifiers tokens) k
    \<and> Counter (normalize_identifiers (rename_identifiers f tokens))
        = Counter (normalize_identifiers tokens)
    \<and> jaccard (shingles (normalize_identifiers tokens) k)
          (shingles (normalize_identifiers (rename_identifiers f tokens)) k) = 1"
  using normalize_identifiers_rename [OF assms]
  by (simp add: jaccard_same finite_shingles)

lemma example_identifiers: "extract_identifiers [''int'', ''foo'', ''='', ''foo'', ''+'', ''x'', '';''] = {''foo'', ''x''}"
proof -
  have "nonkw_ident ''foo''" "nonkw_ident ''x''" "\<not> nonkw_ident ''int''"
    "\<not> nonkw_ident ''=''" "\<not> nonkw_ident ''+''" "\<not> nonkw_ident '';''"
    by code_simp+
  then show ?thesis
    by (auto simp: extract_identifiers_def)
qed

lemma example_renamed: "rename_identifiers (\<lambda>t. if t = ''foo'' then ''bar'' else ''y'') [''int'', ''foo'', ''='', ''foo'', ''+'', ''x'', '';'']
   = [''int'', ''bar'', ''='', ''bar'', ''+'', ''y'', '';'']"
proof -
  have "nonkw_ident ''foo''" "nonkw_ident ''x''" "\<not> nonkw_ident ''int''"
    "\<not> nonkw_ident ''=''" "\<not> nonkw_ident ''+''" "\<not> nonkw_ident '';''"
    by code_simp+
  then show ?thesis
    by (simp add: rename_identifiers_def)
qed

lemma example_normalized: "normalize_identifiers [''int'', ''foo'', ''='', ''foo'', ''+'', ''x'', '';'']
  = [''int'', ''ID1'', ''='', ''ID1'', ''+'', ''ID2'', '';'']"
  by code_simp

lemma example_normalized_renamed: "normalize_identifiers [''int'', ''bar'', ''='', ''bar'', ''+'', ''y'', '';'']
  = [''int'', ''ID1'', ''='', ''ID1'', ''+'', ''ID2'', '';'']"
  by code_simp


theorem rename_invariance_witness:
  "rename_identifiers (\<lambda>t. if t = ''foo'' then ''bar'' else ''y'')
       [''int'', ''foo'', ''='', ''foo'', ''+'', ''x'', '';'']
     = [''int'', ''bar'', ''='', ''bar'', ''+'', ''y'', '';'']
   \<and> normalize_identifiers [''int'', ''bar'', ''='', ''bar'', ''+'', ''y'', '';'']
     = normalize_identifiers [''int'', ''foo'', ''='', ''foo'', ''+'', ''x'', '';'']
   \<and> shingles (normalize_identifiers [''int'', ''bar'', ''='', ''bar'', ''+'', ''y'', '';'']) 5
     = shingles (normalize_identifiers [''int'', ''foo'', ''='', ''foo'', ''+'', ''x'', '';'']) 5
   \<and> Counter (normalize_identifiers [''int'', ''bar'', ''='', ''bar'', ''+'', ''y'', '';''])
     = Counter (normalize_identifiers [''int'', ''foo'', ''='', ''foo'', ''+'', ''x'', '';''])
   \<and> jaccard (shingles (normalize_identifiers [''int'', ''foo'', ''='', ''foo'', ''+'', ''x'', '';'']) 5)
       (shingles (normalize_identifiers [''int'', ''bar'', ''='', ''bar'', ''+'', ''y'', '';'']) 5) = 1"
proof -
  let ?f = "\<lambda>t. if t = ''foo'' then ''bar'' else ''y''"
  let ?ts = "[''int'', ''foo'', ''='', ''foo'', ''+'', ''x'', '';'']"
  have nk: "nonkw_ident ''bar''" "nonkw_ident ''y''"
    by code_simp+
  have h1: "inj_on ?f (extract_identifiers ?ts)"
    unfolding example_identifiers by simp
  have h2: "\<forall>t \<in> extract_identifiers ?ts. nonkw_ident (?f t)"
    unfolding example_identifiers using nk by simp
  show ?thesis
    using rename_invariance [OF h1 h2, of 5] unfolding example_renamed by blast
qed

section \<open>The edit distance and its similarity\<close>

lemma edit_distance_Nil2 [simp]: "edit_distance xs [] = length xs"
  by (cases xs) simp_all

lemma edits_insert_all: "edits [] ys (length ys)"
  by (induction ys) (auto intro: edits.intros)

lemma edits_delete_all: "edits xs [] (length xs)"
  by (induction xs) (auto intro: edits.intros)

lemma edits_edit_distance: "edits xs ys (edit_distance xs ys)"
proof (induction xs ys rule: edit_distance.induct)
  case (1 ys)
  show ?case by (simp add: edits_insert_all)
next
  case (2 x xs)
  show ?case using edits_delete_all [of "x # xs"] by simp
next
  case (3 x xs y ys)
  let ?i = "edit_distance (x # xs) ys + 1"
  let ?d = "edit_distance xs (y # ys) + 1"
  let ?s = "edit_distance xs ys + (if x = y then 0 else 1)"
  have i: "edits (x # xs) (y # ys) ?i"
    using "3.IH"(1) by (auto intro: edits.insert)
  have d: "edits (x # xs) (y # ys) ?d"
    using "3.IH"(2) by (auto intro: edits.delete)
  have s: "edits (x # xs) (y # ys) ?s"
    using "3.IH"(3) by (auto intro: edits.keep edits.replace)
  show ?case
    using i d s by (simp add: min_def)
qed

lemma edit_distance_delete: "edit_distance (x # xs) ys \<le> edit_distance xs ys + 1"
  by (cases ys) simp_all

lemma edit_distance_insert: "edit_distance xs (y # ys) \<le> edit_distance xs ys + 1"
  by (cases xs) simp_all

lemma edit_distance_least: "edits xs ys n \<Longrightarrow> edit_distance xs ys \<le> n"
proof (induction rule: edits.induct)
  case stop
  show ?case by simp
next
  case (keep xs ys n x)
  then show ?case by (simp add: min.coboundedI2)
next
  case (replace xs ys n x y)
  then show ?case by (auto simp add: min_le_iff_disj)
next
  case (delete xs ys n x)
  then show ?case using edit_distance_delete [of x xs ys] by simp
next
  case (insert xs ys n y)
  then show ?case using edit_distance_insert [of xs y ys] by simp
qed

lemma edits_snoc_keep: "edits xs ys n \<Longrightarrow> edits (xs @ [x]) (ys @ [x]) n"
  by (induction rule: edits.induct) (auto intro: edits.intros)

lemma edits_snoc_replace: "edits xs ys n \<Longrightarrow> edits (xs @ [x]) (ys @ [y]) (Suc n)"
  by (induction rule: edits.induct) (auto intro: edits.intros)

lemma edits_snoc_delete: "edits xs ys n \<Longrightarrow> edits (xs @ [x]) ys (Suc n)"
  by (induction rule: edits.induct) (auto intro: edits.intros)

lemma edits_snoc_insert: "edits xs ys n \<Longrightarrow> edits xs (ys @ [y]) (Suc n)"
  by (induction rule: edits.induct) (auto intro: edits.intros)

lemma edits_rev: "edits xs ys n \<Longrightarrow> edits (rev xs) (rev ys) n"
  by (induction rule: edits.induct)
    (auto intro: edits.stop edits_snoc_keep edits_snoc_replace edits_snoc_delete edits_snoc_insert)

lemma edit_distance_rev_le: "edit_distance (rev xs) (rev ys) \<le> edit_distance xs ys"
  by (intro edit_distance_least edits_rev edits_edit_distance)

lemma edit_distance_rev: "edit_distance (rev xs) (rev ys) = edit_distance xs ys"
  using edit_distance_rev_le [of xs ys] edit_distance_rev_le [of "rev xs" "rev ys"] by simp

lemma edit_distance_snoc:
  "edit_distance (xs @ [x]) (ys @ [y]) =
     min (edit_distance (xs @ [x]) ys + 1)
       (min (edit_distance xs (ys @ [y]) + 1)
          (edit_distance xs ys + (if x = y then 0 else 1)))"
proof -
  have "edit_distance (xs @ [x]) (ys @ [y]) = edit_distance (x # rev xs) (y # rev ys)"
    using edit_distance_rev [of "xs @ [x]" "ys @ [y]"] by simp
  also have "\<dots> = min (edit_distance (x # rev xs) (rev ys) + 1)
       (min (edit_distance (rev xs) (y # rev ys) + 1)
          (edit_distance (rev xs) (rev ys) + (if x = y then 0 else 1)))"
    by simp
  also have "edit_distance (x # rev xs) (rev ys) = edit_distance (xs @ [x]) ys"
    using edit_distance_rev [of "xs @ [x]" ys] by simp
  also have "edit_distance (rev xs) (y # rev ys) = edit_distance xs (ys @ [y])"
    using edit_distance_rev [of xs "ys @ [y]"] by simp
  also have "edit_distance (rev xs) (rev ys) = edit_distance xs ys"
    by (rule edit_distance_rev)
  finally show ?thesis .
qed

lemma edit_distance_le_max: "edit_distance xs ys \<le> max (length xs) (length ys)"
  by (induction xs ys rule: edit_distance.induct) (auto simp: min_le_iff_disj)

lemma edit_distance_same: "edit_distance xs xs = 0"
  by (induction xs) simp_all

lemma edit_distance_sym: "edit_distance xs ys = edit_distance ys xs"
  by (induction xs ys rule: edit_distance.induct) (auto simp: min.commute min.left_commute)

lemma pd_0_left: "j \<le> length b \<Longrightarrow> pd a b 0 j = j"
  by (simp add: pd_def)

lemma pd_0_right: "i \<le> length a \<Longrightarrow> pd a b i 0 = i"
  by (simp add: pd_def)

lemma pd_Suc:
  assumes "i < length a" and "j < length b"
  shows "pd a b (Suc i) (Suc j) =
     min (pd a b (Suc i) j + 1)
       (min (pd a b i (Suc j) + 1) (pd a b i j + (if a ! i = b ! j then 0 else 1)))"
  using assms edit_distance_snoc [of "take i a" "a ! i" "take j b" "b ! j"]
  by (simp add: pd_def take_Suc_conv_app_nth)

lemma lev_cell_mix:
  assumes "i < length a" and "k < length b"
  shows "lev_cell (a ! i) b (Suc k) (pd a b i k, mix a b i k)
           = (pd a b i (Suc k), mix a b i (Suc k))"
proof -
  have len: "length (mix a b i k) = length b + 1"
    by (simp add: mix_def)
  have at_k: "mix a b i k ! k = pd a b (Suc i) k"
    using assms(2) by (simp add: mix_def del: upt_Suc)
  have at_Sk: "mix a b i k ! Suc k = pd a b i (Suc k)"
    using assms(2) by (simp add: mix_def del: upt_Suc)
  have upd: "(mix a b i k)[Suc k := pd a b (Suc i) (Suc k)] = mix a b i (Suc k)"
  proof (rule nth_equalityI)
    show "length ((mix a b i k)[Suc k := pd a b (Suc i) (Suc k)]) = length (mix a b i (Suc k))"
      by (simp add: mix_def)
  next
    fix j
    assume "j < length ((mix a b i k)[Suc k := pd a b (Suc i) (Suc k)])"
    then have j: "j < length b + 1" by (simp add: mix_def)
    show "(mix a b i k)[Suc k := pd a b (Suc i) (Suc k)] ! j = mix a b i (Suc k) ! j"
    proof (cases "j = Suc k")
      case True
      then show ?thesis using j by (simp add: mix_def del: upt_Suc)
    next
      case False
      then show ?thesis using j by (auto simp add: mix_def simp del: upt_Suc)
    qed
  qed
  have "lev_cell (a ! i) b (Suc k) (pd a b i k, mix a b i k)
      = (pd a b i (Suc k),
         (mix a b i k)[Suc k := min (pd a b (Suc i) k + 1)
            (min (pd a b i (Suc k) + 1) (pd a b i k + (if a ! i = b ! k then 0 else 1)))])"
    by (simp add: lev_cell_def at_k at_Sk)
  then show ?thesis
    unfolding pd_Suc [OF assms, symmetric] upd .
qed

lemma fold_lev_cell:
  assumes "i < length a" and "k \<le> length b"
  shows "fold (lev_cell (a ! i) b) [1 ..< k + 1] (pd a b i 0, mix a b i 0)
           = (pd a b i k, mix a b i k)"
  using assms(2)
proof (induction k)
  case 0
  show ?case by simp
next
  case (Suc k)
  then have "fold (lev_cell (a ! i) b) [1 ..< k + 1] (pd a b i 0, mix a b i 0)
           = (pd a b i k, mix a b i k)"
    by simp
  moreover have "[1 ..< Suc k + 1] = [1 ..< k + 1] @ [Suc k]"
    by simp
  ultimately show ?case
    using lev_cell_mix [OF assms(1), of k] Suc.prems by (simp del: upt_Suc)
qed

lemma lev_row_correct:
  assumes "i < length a"
  shows "lev_row a b (Suc i) (map (pd a b i) [0 ..< length b + 1])
           = map (pd a b (Suc i)) [0 ..< length b + 1]"
proof -
  let ?dp = "map (pd a b i) [0 ..< length b + 1]"
  have hd: "?dp ! 0 = pd a b i 0"
    by (simp del: upt_Suc add: upt_conv_Cons)
  have init: "?dp[0 := Suc i] = mix a b i 0"
  proof (rule nth_equalityI)
    show "length (?dp[0 := Suc i]) = length (mix a b i 0)"
      by (simp add: mix_def)
  next
    fix j
    assume "j < length (?dp[0 := Suc i])"
    then have "j < length b + 1" by simp
    then show "?dp[0 := Suc i] ! j = mix a b i 0 ! j"
      using assms by (cases j) (simp_all add: mix_def pd_0_right del: upt_Suc)
  qed
  have last: "mix a b i (length b) = map (pd a b (Suc i)) [0 ..< length b + 1]"
    by (simp add: mix_def del: upt_Suc)
  have "lev_row a b (Suc i) ?dp
      = snd (fold (lev_cell (a ! i) b) [1 ..< length b + 1] (?dp ! 0, ?dp[0 := Suc i]))"
    by (simp add: lev_row_def)
  also have "\<dots> = snd (fold (lev_cell (a ! i) b) [1 ..< length b + 1] (pd a b i 0, mix a b i 0))"
    by (simp only: hd init)
  also have "\<dots> = mix a b i (length b)"
    by (simp only: fold_lev_cell [OF assms, where k = "length b" and b = b, OF order_refl] snd_conv)
  finally show ?thesis
    by (simp only: last)
qed

lemma fold_lev_row:
  assumes "i \<le> length a"
  shows "fold (lev_row a b) [1 ..< i + 1] [0 ..< length b + 1]
           = map (pd a b i) [0 ..< length b + 1]"
  using assms
proof (induction i)
  case 0
  have "map (pd a b 0) [0 ..< length b + 1] = map (\<lambda>j. j) [0 ..< length b + 1]"
    by (rule map_cong) (auto simp add: pd_0_left)
  then show ?case by (simp del: upt_Suc)
next
  case (Suc i)
  then have "fold (lev_row a b) [1 ..< i + 1] [0 ..< length b + 1]
           = map (pd a b i) [0 ..< length b + 1]"
    by simp
  moreover have "[1 ..< Suc i + 1] = [1 ..< i + 1] @ [Suc i]"
    by simp
  ultimately show ?case
    using lev_row_correct [of i a b] Suc.prems by (simp del: upt_Suc)
qed

lemma levenshtein_edit_distance: "levenshtein a b = edit_distance a b"
proof (cases "a = [] \<or> b = []")
  case True
  then show ?thesis by (auto simp: levenshtein_def Let_def)
next
  case False
  then have "levenshtein a b = map (pd a b (length a)) [0 ..< length b + 1] ! length b"
    using fold_lev_row [of "length a" a b] by (simp add: levenshtein_def del: upt_Suc)
  also have "\<dots> = pd a b (length a) (length b)"
    by (simp del: upt_Suc)
  finally show ?thesis by (simp add: pd_def)
qed


text \<open>
  C8. For all sequences \<open>x\<close> and \<open>y\<close>: \<open>sim_edit x y\<close> lies between 0 and 1,
  \<open>sim_edit x x = 1\<close>, \<open>sim_edit\<close> is symmetric, it is 1 on two empty sequences and
  otherwise \<open>1 - levenshtein x y / max |x| |y|\<close>; and \<open>levenshtein\<close> is the classical edit
  distance: the value of the usual recursion, which is the least number of single-element
  insertions, deletions and substitutions that turn \<open>x\<close> into \<open>y\<close>.
\<close>

theorem sim_edit_properties:
  fixes x y :: "'a list"
  shows "0 \<le> sim_edit x y \<and> sim_edit x y \<le> 1
    \<and> sim_edit x x = 1
    \<and> sim_edit x y = sim_edit y x
    \<and> sim_edit ([] :: 'a list) [] = 1
    \<and> (\<not> (x = [] \<and> y = []) \<longrightarrow>
         sim_edit x y = 1 - real (levenshtein x y) / real (max (length x) (length y)))
    \<and> levenshtein x y = edit_distance x y
    \<and> edits x y (levenshtein x y)
    \<and> (\<forall>n. edits x y n \<longrightarrow> levenshtein x y \<le> n)"
proof -
  have le: "levenshtein x y \<le> max (length x) (length y)"
    by (simp only: levenshtein_edit_distance edit_distance_le_max)
  have formula: "sim_edit x y = 1 - real (levenshtein x y) / real (max (length x) (length y))"
    if "\<not> (x = [] \<and> y = [])"
  proof -
    have "max (length x) (max (length y) 1) = max (length x) (length y)"
      using that by (cases x; cases y) simp_all
    then show ?thesis
      using that by (simp add: sim_edit_def Let_def)
  qed
  have bounds: "0 \<le> sim_edit x y \<and> sim_edit x y \<le> 1"
  proof (cases "x = [] \<and> y = []")
    case True
    then show ?thesis by (simp add: sim_edit_def)
  next
    case False
    then have pos: "0 < max (length x) (length y)"
      by (cases x; cases y) simp_all
    have "real (levenshtein x y) / real (max (length x) (length y)) \<le> 1"
      using le pos by (simp add: divide_le_eq_1)
    moreover have "0 \<le> real (levenshtein x y) / real (max (length x) (length y))"
      by simp
    ultimately show ?thesis
      using formula [OF False] by simp
  qed
  have same: "sim_edit x x = 1"
    by (simp add: sim_edit_def Let_def levenshtein_edit_distance edit_distance_same)
  have sym: "sim_edit x y = sim_edit y x"
    using edit_distance_sym [of x y]
    by (auto simp add: sim_edit_def Let_def levenshtein_edit_distance max.commute)
  have empty: "sim_edit ([] :: 'a list) [] = 1"
    by (simp add: sim_edit_def)
  have least: "\<forall>n. edits x y n \<longrightarrow> levenshtein x y \<le> n"
    by (simp add: levenshtein_edit_distance edit_distance_least)
  have reach: "edits x y (levenshtein x y)"
    by (simp add: levenshtein_edit_distance edits_edit_distance)
  show ?thesis
    using bounds same sym empty formula least reach levenshtein_edit_distance [of x y]
    by blast
qed

lemma edits_example:
  "edits [''IF'', ''BRACE{'', ''FOR''] [''IF'', ''WHILE''] 2"
proof -
  have "edits ([] :: string list) [] 0"
    by (rule edits.stop)
  then have "edits [''FOR''] [] (Suc 0)"
    by (rule edits.delete)
  then have "edits [''BRACE{'', ''FOR''] [''WHILE''] (Suc (Suc 0))"
    by (rule edits.replace)
  then have "edits [''IF'', ''BRACE{'', ''FOR''] [''IF'', ''WHILE''] (Suc (Suc 0))"
    by (rule edits.keep)
  then show ?thesis
    by (simp add: numeral_2_eq_2)
qed

lemma edit_distance_example:
  "edit_distance [''IF'', ''BRACE{'', ''FOR''] [''IF'', ''WHILE''] = 2"
  by simp

theorem sim_edit_properties_witness:
  "edits [''IF'', ''BRACE{'', ''FOR''] [''IF'', ''WHILE''] 2
   \<and> levenshtein [''IF'', ''BRACE{'', ''FOR''] [''IF'', ''WHILE''] = 2
   \<and> sim_edit [''IF'', ''BRACE{'', ''FOR''] [''IF'', ''WHILE''] = 1 / 3
   \<and> sim_edit [''IF'', ''WHILE''] [''IF'', ''BRACE{'', ''FOR''] = 1 / 3"
proof -
  let ?x = "[''IF'', ''BRACE{'', ''FOR'']" and ?y = "[''IF'', ''WHILE'']"
  note p = sim_edit_properties [of ?x ?y]
  have lev: "levenshtein ?x ?y = 2"
    using p edit_distance_example by simp
  have "\<not> (?x = [] \<and> ?y = [])" by simp
  then have "sim_edit ?x ?y = 1 - real (levenshtein ?x ?y) / real (max (length ?x) (length ?y))"
    using p by blast
  then have s: "sim_edit ?x ?y = 1 / 3"
    by (simp add: lev)
  moreover have "sim_edit ?y ?x = sim_edit ?x ?y"
    using p by simp
  ultimately show ?thesis
    using lev edits_example by simp
qed

section \<open>The pairwise pass, cosine and baseline\<close>

lemma pairwise_fine_pairs_distinct:
  assumes "pairwise_fine_pairs feats meta ps pairs = Inr out"
    and "\<forall>(a, b, s, br) \<in> set pairs. map_option snd (meta a) \<noteq> map_option snd (meta b)"
  shows "\<forall>(a, b, s, br) \<in> set out. map_option snd (meta a) \<noteq> map_option snd (meta b)"
  using assms
proof (induction ps arbitrary: pairs)
  case Nil
  then show ?case by simp
next
  case (Cons p ps)
  obtain a b where p: "p = (a, b)" by (cases p)
  obtain ma mb where m: "meta a = Some ma" "meta b = Some mb"
    using Cons.prems(1) by (auto simp: p split: option.splits)
  show ?case
  proof (cases "snd ma = snd mb")
    case True
    then have "pairwise_fine_pairs feats meta ps pairs = Inr out"
      using Cons.prems(1) m by (simp add: p)
    then show ?thesis
      using Cons.prems(2) by (rule Cons.IH)
  next
    case False
    then obtain score br where
      run: "pairwise_fine_pairs feats meta ps (pairs @ [(a, b, score, br)]) = Inr out"
      using Cons.prems(1) m by (auto simp: p split: option.splits sum.splits)
    have "\<forall>(a', b', s, br') \<in> set (pairs @ [(a, b, score, br)]).
            map_option snd (meta a') \<noteq> map_option snd (meta b')"
      using Cons.prems(2) False m by auto
    with run show ?thesis
      by (rule Cons.IH)
  qed
qed

lemma main_pairs_same_tag_general:
  assumes "feats a = Some (Features fa)" and "feats b = Some (Features fb)"
  shows "\<exists>score br. main_group feats w [a, b] = Inr [(a, b, score, br)]"
  using assms by (simp add: main_group_def get_error_def get_too_short_def compare_pair_def Let_def)

lemma norm_pos:
  assumes "ca \<noteq> {#}"
  shows "0 < (\<Sum>k \<in> set_mset ca. real (count ca k) * real (count ca k))"
proof -
  obtain x where x: "x \<in># ca"
    using assms by auto
  have "real (count ca x) * real (count ca x) > 0"
    using x by simp
  moreover have "real (count ca x) * real (count ca x)
      \<le> (\<Sum>k \<in> set_mset ca. real (count ca k) * real (count ca k))"
    using x by (intro member_le_sum) simp_all
  ultimately show ?thesis by linarith
qed

lemma cosine_final_rule:
  "cosine_final {#} {#} = 1"
  "ca \<noteq> {#} \<Longrightarrow> cosine_final ca {#} = 0"
  "ca \<noteq> {#} \<Longrightarrow> cb \<noteq> {#} \<Longrightarrow>
     cosine_final ca cb =
       (\<Sum>k \<in> set_mset ca \<union> set_mset cb. real (count ca k) * real (count cb k))
       / (sqrt (\<Sum>k \<in> set_mset ca. real (count ca k) * real (count ca k))
          * sqrt (\<Sum>k \<in> set_mset cb. real (count cb k) * real (count cb k)))"
proof -
  show "cosine_final {#} {#} = 1"
    by (simp add: cosine_final_def)
  show "ca \<noteq> {#} \<Longrightarrow> cosine_final ca {#} = 0"
    by (simp add: cosine_final_def)
  assume "ca \<noteq> {#}" and "cb \<noteq> {#}"
  then show "cosine_final ca cb =
       (\<Sum>k \<in> set_mset ca \<union> set_mset cb. real (count ca k) * real (count cb k))
       / (sqrt (\<Sum>k \<in> set_mset ca. real (count ca k) * real (count ca k))
          * sqrt (\<Sum>k \<in> set_mset cb. real (count cb k) * real (count cb k)))"
    using norm_pos [of ca] norm_pos [of cb]
    by (simp add: cosine_final_def Let_def)
qed

lemma cosine_nonempty:
  "ca \<noteq> {#} \<Longrightarrow> cosine ca {#} = 0"
  "ca \<noteq> {#} \<Longrightarrow> cb \<noteq> {#} \<Longrightarrow>
     cosine ca cb =
       (\<Sum>k \<in> set_mset ca \<union> set_mset cb. real (count ca k) * real (count cb k))
       / (sqrt (\<Sum>k \<in> set_mset ca. real (count ca k) * real (count ca k))
          * sqrt (\<Sum>k \<in> set_mset cb. real (count cb k) * real (count cb k)))"
proof -
  show "ca \<noteq> {#} \<Longrightarrow> cosine ca {#} = 0"
    by (simp add: cosine_def)
  assume "ca \<noteq> {#}" and "cb \<noteq> {#}"
  then show "cosine ca cb =
       (\<Sum>k \<in> set_mset ca \<union> set_mset cb. real (count ca k) * real (count cb k))
       / (sqrt (\<Sum>k \<in> set_mset ca. real (count ca k) * real (count ca k))
          * sqrt (\<Sum>k \<in> set_mset cb. real (count cb k) * real (count cb k)))"
    using norm_pos [of ca] norm_pos [of cb]
    by (simp add: cosine_def Let_def)
qed

text \<open>
  C4 (the code at the input where it departs from the claim). On two empty bags the
  \<open>cosine\<close> of \<open>c_similarity_fine_final.py\<close> returns 0, where the claim and the \<open>cosine\<close> of
  \<open>c_similarity_final.py\<close> give 1.
\<close>

theorem cosine_empty_bags:
  "cosine {#} {#} = 0 \<and> cosine_final {#} {#} = 1"
  by (simp add: cosine_def cosine_final_def)

lemma fmean_same: "fmean [v, v] = v"
  by (simp add: fmean_def)

lemma pstdev_same: "pstdev [v, v] = 0"
  by (simp add: pstdev_def fmean_same)

text \<open>
  C5 (the code at the input where it departs from the claim). For two equal scores the
  standard deviation is 0 and the second component that \<open>baseline_stats\<close> returns is the
  pair \<open>(mean, 0.0)\<close>, not a number.
\<close>

theorem baseline_stats_zero_deviation:
  "pstdev [v, v] = 0 \<and> baseline_stats [v, v] = Some (v, Tuple v 0)"
  by (simp add: baseline_stats_def pstdev_same fmean_same)

lemma baseline_stats_short: "length values < 2 \<Longrightarrow> baseline_stats values = None"
  by (simp add: baseline_stats_def)

lemma baseline_stats_positive:
  "2 \<le> length values \<Longrightarrow> 0 < pstdev values
     \<Longrightarrow> baseline_stats values = Some (fmean values, Number (pstdev values))"
  by (simp add: baseline_stats_def Let_def)

lemma baseline_stats_zero:
  "2 \<le> length values \<Longrightarrow> pstdev values = 0
     \<Longrightarrow> baseline_stats values = Some (fmean values, Tuple (fmean values) 0)"
  by (simp add: baseline_stats_def Let_def)

lemma parse_example:
  "parse_qsigla ''q01_x.c'' = Some (1, ''x'')" "parse_qsigla ''q1_x.c'' = Some (1, ''x'')"
  by code_simp+

text \<open>
  C3 (the code at the input where it departs from the claim). The files \<open>q01_x.c\<close> and
  \<open>q1_x.c\<close> belong to question 1 and have the same author tag \<open>x\<close>; with full feature
  bundles the pair loop of \<open>main\<close> scores the pair.
\<close>

theorem main_pairs_same_author:
  "parse_qsigla ''q01_x.c'' = Some (1, ''x'') \<and> parse_qsigla ''q1_x.c'' = Some (1, ''x'')
   \<and> (\<exists>score br. main_group [''q01_x.c'' \<mapsto> Features fa, ''q1_x.c'' \<mapsto> Features fb] w
                     [''q01_x.c'', ''q1_x.c'']
                   = Inr [(''q01_x.c'', ''q1_x.c'', score, br)])"
  using main_pairs_same_tag_general
    [of "[''q01_x.c'' \<mapsto> Features fa, ''q1_x.c'' \<mapsto> Features fb]" "''q01_x.c''" fa "''q1_x.c''" fb w]
  by (simp add: parse_example)

text \<open>The earlier variant \<open>pairwise_fine\<close> never scores two files with equal tags.\<close>

lemma pairwise_fine_group_distinct:
  assumes "pairwise_fine_group feats meta plist = Inr out"
  shows "\<forall>(a, b, s, br) \<in> set out. map_option snd (meta a) \<noteq> map_option snd (meta b)"
  using assms unfolding pairwise_fine_group_def
  by (rule pairwise_fine_pairs_distinct) simp

end
